theory Spec2Isabelle
  imports
    Complex_Main
    "HOL-Library.Sublist"
    "HOL-Library.Char_ord"
    "HOL-Library.List_Lexorder"
begin

section \<open>Strings\<close>

text \<open>
  Python \<open>str\<close> values are modelled as \<^typ>\<open>string\<close>. The character predicates below
  are the ASCII ones: a character outside ASCII is neither a digit, nor white space, nor a
  word character, and \<open>lower()\<close> leaves it alone.
\<close>

definition is_digit :: "char \<Rightarrow> bool" where
  "is_digit c = (CHR ''0'' \<le> c \<and> c \<le> CHR ''9'')"

definition is_space :: "char \<Rightarrow> bool" where
  "is_space c = (c = CHR '' '' \<or> (9 \<le> (of_char c :: nat) \<and> (of_char c :: nat) \<le> 13)
                 \<or> (28 \<le> (of_char c :: nat) \<and> (of_char c :: nat) \<le> 31))"

definition is_word :: "char \<Rightarrow> bool" where
  "is_word c = ((CHR ''a'' \<le> c \<and> c \<le> CHR ''z'') \<or> (CHR ''A'' \<le> c \<and> c \<le> CHR ''Z'')
                \<or> is_digit c \<or> c = CHR ''_'')"

definition lower_char :: "char \<Rightarrow> char" where
  "lower_char c = (if CHR ''A'' \<le> c \<and> c \<le> CHR ''Z''
                   then char_of ((of_char c :: nat) + 32) else c)"

text \<open>\<open>s.lower()\<close>\<close>
definition lower :: "string \<Rightarrow> string" where
  "lower s = map lower_char s"

text \<open>\<open>s.strip()\<close>\<close>
definition strip :: "string \<Rightarrow> string" where
  "strip s = rev (dropWhile is_space (rev (dropWhile is_space s)))"

text \<open>\<open>x in s\<close> for two strings: \<open>x\<close> occurs in \<open>s\<close> as a contiguous piece.\<close>
definition str_in :: "string \<Rightarrow> string \<Rightarrow> bool" where
  "str_in x s = sublist x s"

text \<open>\<open>s.startswith(x)\<close>\<close>
definition startswith :: "string \<Rightarrow> string \<Rightarrow> bool" where
  "startswith s x = prefix x s"

text \<open>\<open>s.replace(old, '')\<close> for a non-empty \<open>old\<close>: occurrences are removed from left
  to right, without overlap.\<close>
function remove_all :: "string \<Rightarrow> string \<Rightarrow> string" where
  "remove_all old [] = []"
| "remove_all old (c # cs) =
     (if old \<noteq> [] \<and> prefix old (c # cs)
      then remove_all old (drop (length old) (c # cs))
      else c # remove_all old cs)"
  by pat_completeness auto
termination
proof (relation "measure (\<lambda>(old, s). length s)")
  show "wf (measure (\<lambda>(old, s). length s))"
    by simp
next
  fix old :: string and c :: char and cs :: string
  assume "old \<noteq> [] \<and> prefix old (c # cs)"
  then have "0 < length old"
    by simp
  then show "((old, drop (length old) (c # cs)), (old, c # cs)) \<in> measure (\<lambda>(old, s). length s)"
    by simp
next
  fix old :: string and c :: char and cs :: string
  show "((old, cs), (old, c # cs)) \<in> measure (\<lambda>(old, s). length s)"
    by simp
qed

text \<open>\<open>s.split(sep)[0]\<close> for a one-character separator.\<close>
definition split_first :: "char \<Rightarrow> string \<Rightarrow> string" where
  "split_first sep s = takeWhile (\<lambda>c. c \<noteq> sep) s"

text \<open>\<open>s.split(sep)[1]\<close> for a one-character separator that occurs exactly once in
  \<open>s\<close>.\<close>
definition split_second :: "char \<Rightarrow> string \<Rightarrow> string" where
  "split_second sep s = tl (dropWhile (\<lambda>c. c \<noteq> sep) s)"

text \<open>\<open>sep.join(parts)\<close>\<close>
fun join :: "string \<Rightarrow> string list \<Rightarrow> string" where
  "join sep [] = []"
| "join sep [p] = p"
| "join sep (p # q # ps) = p @ sep @ join sep (q # ps)"

text \<open>\<open>len(re.sub(r'\D', '', s))\<close>\<close>
definition digit_count :: "string \<Rightarrow> nat" where
  "digit_count s = length (filter is_digit s)"

section \<open>Regular expressions\<close>

text \<open>
  The two compiled patterns of \<open>__init__\<close> are values of the datatype \<open>regex\<close>, and
  \<open>findall\<close> is a backtracking matcher in the order of Python's \<open>re\<close>: the left branch of
  an alternative first, a repetition as long as possible first. A matcher state is the
  character before the current position, the rest of the input, and the groups captured so
  far; \<open>matches r st\<close> lists every way \<open>r\<close> can match at \<open>st\<close>, the preferred one first.
\<close>

datatype citem = Ch char | Range char char | Digits | Spaces

fun citem_has :: "citem \<Rightarrow> char \<Rightarrow> bool" where
  "citem_has (Ch d) c = (c = d)"
| "citem_has (Range lo hi) c = (lo \<le> c \<and> c \<le> hi)"
| "citem_has Digits c = is_digit c"
| "citem_has Spaces c = is_space c"

datatype regex =
    Epsilon
  | One "citem list"
  | Cat regex regex
  | Or regex regex
  | Repeat nat "nat option" regex
  | Group nat regex
  | Boundary

type_synonym mstate = "char option \<times> string \<times> (nat \<times> string) list"

fun rep_greedy :: "(mstate \<Rightarrow> mstate list) \<Rightarrow> nat \<Rightarrow> nat \<Rightarrow> mstate \<Rightarrow> mstate list" where
  "rep_greedy f lo 0 st = (if lo = 0 then [st] else [])"
| "rep_greedy f lo (Suc k) st =
     concat (map (rep_greedy f (lo - 1) k) (f st)) @ (if lo = 0 then [st] else [])"

definition word_char :: "char option \<Rightarrow> bool" where
  "word_char p = (case p of None \<Rightarrow> False | Some c \<Rightarrow> is_word c)"

definition next_char :: "string \<Rightarrow> char option" where
  "next_char s = (case s of [] \<Rightarrow> None | c # _ \<Rightarrow> Some c)"

definition capture :: "nat \<Rightarrow> mstate \<Rightarrow> mstate \<Rightarrow> mstate" where
  "capture n st st' =
     (case st of (p, s, g) \<Rightarrow> case st' of (p', s', g') \<Rightarrow>
        (p', s', (n, take (length s - length s') s) # g'))"

primrec matches :: "regex \<Rightarrow> mstate \<Rightarrow> mstate list" where
  "matches Epsilon st = [st]"
| "matches (One items) st =
     (case st of (p, s, g) \<Rightarrow>
        (case s of [] \<Rightarrow> []
         | c # cs \<Rightarrow> if list_ex (\<lambda>i. citem_has i c) items then [(Some c, cs, g)] else []))"
| "matches (Cat a b) st = concat (map (matches b) (matches a st))"
| "matches (Or a b) st = matches a st @ matches b st"
| "matches (Repeat lo hi r) st =
     rep_greedy (matches r) lo
       (case hi of Some h \<Rightarrow> h | None \<Rightarrow> lo + length (fst (snd st))) st"
| "matches (Group n r) st = map (capture n st) (matches r st)"
| "matches Boundary st =
     (if word_char (fst st) \<noteq> word_char (next_char (fst (snd st))) then [st] else [])"

definition prev_char :: "string \<Rightarrow> nat \<Rightarrow> char option" where
  "prev_char s i = (if i = 0 \<or> length s < i then None else Some (s ! (i - 1)))"

text \<open>
  The matches of \<open>r\<close> in \<open>s\<close> from position \<open>i\<close> on, from left to right and without
  overlap: each with the matched text and its groups. After an empty match the scan moves
  one character on.
\<close>

function scan :: "regex \<Rightarrow> string \<Rightarrow> nat \<Rightarrow> (string \<times> (nat \<times> string) list) list" where
  "scan r s i =
     (if length s < i then []
      else (case matches r (prev_char s i, drop i s, []) of
              [] \<Rightarrow> scan r s (Suc i)
            | (p, rest, g) # _ \<Rightarrow>
                (take (length s - length rest - i) (drop i s), g)
                  # scan r s (if i < length s - length rest then length s - length rest else Suc i)))"
  by pat_completeness auto
termination
  by (relation "measure (\<lambda>(r, s, i). Suc (length s) - i)") auto

definition group :: "(nat \<times> string) list \<Rightarrow> nat \<Rightarrow> string" where
  "group g n = (case map_of g n of None \<Rightarrow> [] | Some x \<Rightarrow> x)"

text \<open>\<open>pattern.findall(s)\<close> for a pattern without groups: the matched texts.\<close>
definition findall :: "regex \<Rightarrow> string \<Rightarrow> string list" where
  "findall r s = map fst (scan r s 0)"

text \<open>\<open>pattern.findall(s)\<close> for a pattern with \<open>n\<close> groups, \<open>n > 1\<close>: the tuples of
  the groups, a group that took no part being the empty string.\<close>
definition findall_groups :: "regex \<Rightarrow> nat \<Rightarrow> string \<Rightarrow> string list list" where
  "findall_groups r n s = map (\<lambda>(m, g). map (group g) [1..<Suc n]) (scan r s 0)"

definition lit :: "string \<Rightarrow> regex" where
  "lit s = foldr (\<lambda>c r. Cat (One [Ch c]) r) s Epsilon"

definition cats :: "regex list \<Rightarrow> regex" where
  "cats rs = foldr Cat rs Epsilon"

definition opt :: "regex \<Rightarrow> regex" where
  "opt r = Repeat 0 (Some 1) r"

definition star :: "regex \<Rightarrow> regex" where
  "star r = Repeat 0 None r"

definition plus :: "regex \<Rightarrow> regex" where
  "plus r = Repeat 1 None r"

text \<open>
  \<^verbatim>\<open>\b[A-Za-z0-9._%+-]+@[A-Za-z0-9.-]+\.[A-Z|a-z]{2,}\b\<close>
\<close>
definition email_pattern :: regex where
  "email_pattern = cats
     [Boundary,
      plus (One [Range CHR ''A'' CHR ''Z'', Range CHR ''a'' CHR ''z'', Range CHR ''0'' CHR ''9'',
                 Ch CHR ''.'', Ch CHR ''_'', Ch CHR ''%'', Ch CHR ''+'', Ch CHR ''-'']),
      One [Ch CHR ''@''],
      plus (One [Range CHR ''A'' CHR ''Z'', Range CHR ''a'' CHR ''z'', Range CHR ''0'' CHR ''9'',
                 Ch CHR ''.'', Ch CHR ''-'']),
      One [Ch CHR ''.''],
      Repeat 2 None (One [Range CHR ''A'' CHR ''Z'', Ch CHR ''|'', Range CHR ''a'' CHR ''z'']),
      Boundary]"

text \<open>The pieces of \<open>phone_pattern\<close>: \<^verbatim>\<open>\s*\<close>, \<^verbatim>\<open>(?:[.-]\s*)?\<close>,
  \<^verbatim>\<open>[\s.-]?\<close> and the digit classes.\<close>

definition spaces :: regex where
  "spaces = star (One [Spaces])"

definition dot_dash :: regex where
  "dot_dash = opt (cats [One [Ch CHR ''.'', Ch CHR ''-''], spaces])"

definition sep :: regex where
  "sep = opt (One [Spaces, Ch CHR ''.'', Ch CHR ''-''])"

definition d29 :: regex where
  "d29 = One [Range CHR ''2'' CHR ''9'']"

definition d0_29 :: regex where
  "d0_29 = One [Ch CHR ''0'', Range CHR ''2'' CHR ''9'']"

definition d0_28 :: regex where
  "d0_28 = One [Ch CHR ''0'', Range CHR ''2'' CHR ''8'']"

definition digit :: regex where
  "digit = One [Digits]"

text \<open>
  The first alternative of \<open>phone_pattern\<close>, with its four groups:
  \<^verbatim>\<open>(?:\+?1\s*(?:[.-]\s*)?)?\<close>
  \<^verbatim>\<open>(?:\(?\s*([2-9]1[02-9]|[2-9][02-8]1|[2-9][02-8][02-9])\s*\)?\s*(?:[.-]\s*)?)?\<close>
  \<^verbatim>\<open>([2-9]1[02-9]|[2-9][02-9]1|[2-9][02-9]{2})\s*(?:[.-]\s*)?([0-9]{4})\<close>
  \<^verbatim>\<open>(?:\s*(?:#|x\.?|ext\.?|extension)\s*(\d+))?\<close>
\<close>
definition phone_nanp :: regex where
  "phone_nanp = cats
     [opt (cats [opt (lit ''+''), lit ''1'', spaces, dot_dash]),
      opt (cats [opt (lit ''(''), spaces,
                 Group 1 (Or (cats [d29, lit ''1'', d0_29])
                          (Or (cats [d29, d0_28, lit ''1''])
                              (cats [d29, d0_28, d0_29]))),
                 spaces, opt (lit '')''), spaces, dot_dash]),
      Group 2 (Or (cats [d29, lit ''1'', d0_29])
               (Or (cats [d29, d0_29, lit ''1''])
                   (cats [d29, Repeat 2 (Some 2) d0_29]))),
      spaces, dot_dash,
      Group 3 (Repeat 4 (Some 4) (One [Range CHR ''0'' CHR ''9''])),
      opt (cats [spaces,
                 Or (lit ''#'')
                    (Or (cats [lit ''x'', opt (lit ''.'')])
                        (Or (cats [lit ''ext'', opt (lit ''.'')]) (lit ''extension''))),
                 spaces, Group 4 (plus digit)])]"

text \<open>
  The second alternative:
  \<^verbatim>\<open>(?:\+\d{1,3}[\s.-]?)?\(?\d{2,4}\)?[\s.-]?\d{2,4}[\s.-]?\d{2,4}[\s.-]?\d{0,4}\<close>
\<close>
definition phone_intl :: regex where
  "phone_intl = cats
     [opt (cats [lit ''+'', Repeat 1 (Some 3) digit, sep]),
      opt (lit ''(''), Repeat 2 (Some 4) digit, opt (lit '')''), sep,
      Repeat 2 (Some 4) digit, sep, Repeat 2 (Some 4) digit, sep, Repeat 0 (Some 4) digit]"

definition phone_pattern :: regex where
  "phone_pattern = Or phone_nanp phone_intl"

section \<open>Parsed documents\<close>

text \<open>
  The extractors read a parsed document only through five queries, so a document is the
  record of their answers, each in document order:
  \<^item> \<open>links\<close>: \<open>soup.find_all('a', href=True)\<close>, each link with its \<open>href\<close> and its
    \<open>get_text(strip=True)\<close>;
  \<^item> \<open>metas\<close>: \<open>soup.find_all('meta')\<close>, each with its \<open>content\<close> attribute if it has one;
  \<^item> \<open>contact_elements\<close>: the \<open>p\<close>, \<open>div\<close>, \<open>span\<close>, \<open>li\<close> and \<open>td\<close> elements whose string
    matches \<open>phone|call|contact|tel\<close>, each with its \<open>get_text(separator=' ', strip=True)\<close>;
  \<^item> \<open>postal_addresses\<close>: the elements whose \<open>itemtype\<close> matches \<open>.*PostalAddress\<close>, each
    with the \<open>get_text(strip=True)\<close> of its descendants that have an \<open>itemprop\<close>;
  \<^item> \<open>blocks\<close>: \<open>soup.find_all(['address', 'div', 'p'])\<close>, each with its
    \<open>get_text(strip=True)\<close>.
\<close>

record link =
  href :: string
  link_text :: string

record document =
  links :: "link list"
  metas :: "string option list"
  contact_elements :: "string list"
  postal_addresses :: "string list list"
  blocks :: "string list"

section \<open>Field extractors\<close>

subsection \<open>\<open>extract_emails\<close>\<close>

definition denylist :: "string list" where
  "denylist =
     [''example.com'', ''domain.com'', ''email.com'', ''test.com'',
      ''yoursite.com'', ''website.com'', ''yourdomain.com'',
      ''siteaddress.com'', ''sample.com'', ''.png'', ''.jpg'', ''.gif'']"

text \<open>\<open>any(x in s for x in xs)\<close>\<close>
definition any_in :: "string list \<Rightarrow> string \<Rightarrow> bool" where
  "any_in xs s = list_ex (\<lambda>x. str_in x s) xs"

text \<open>\<open>link['href'].replace('mailto:', '').split('?')[0].strip()\<close>\<close>
definition mailto_address :: "string \<Rightarrow> string" where
  "mailto_address h = strip (split_first CHR ''?'' (remove_all ''mailto:'' h))"

text \<open>The first loop: the \<open>mailto:\<close> links.\<close>
definition mailto_emails :: "document \<Rightarrow> string list" where
  "mailto_emails soup =
     map (\<lambda>l. lower (mailto_address (href l)))
       (filter (\<lambda>l. startswith (href l) ''mailto:''
                  \<and> CHR ''@'' \<in> set (mailto_address (href l))
                  \<and> CHR ''.'' \<in> set (mailto_address (href l)))
          (links soup))"

text \<open>The second loop: the matches of \<open>email_pattern\<close> in the page text.\<close>
definition text_emails :: "string \<Rightarrow> string list" where
  "text_emails text =
     filter (\<lambda>email. email \<noteq> [] \<and> \<not> any_in denylist email
                \<and> count_list email CHR ''@'' = 1
                \<and> CHR ''.'' \<in> set (split_second CHR ''@'' email))
       (map (\<lambda>email. strip (lower email)) (findall email_pattern text))"

text \<open>The third loop: the \<open>content\<close> of the \<open>meta\<close> tags.\<close>
definition meta_content :: "string option \<Rightarrow> string" where
  "meta_content m = (case m of None \<Rightarrow> [] | Some c \<Rightarrow> c)"

definition meta_emails :: "document \<Rightarrow> string list" where
  "meta_emails soup =
     concat (map (\<lambda>m.
        if CHR ''@'' \<in> set (meta_content m)
        then filter (\<lambda>email. count_list email CHR ''@'' = 1)
               (map (\<lambda>email. strip (lower email)) (findall email_pattern (meta_content m)))
        else []) (metas soup))"

text \<open>The set \<open>emails\<close> only grows, so what is returned is the union of what the three
  loops add.\<close>
definition extract_emails :: "document \<Rightarrow> string \<Rightarrow> string set" where
  "extract_emails soup text =
     set (mailto_emails soup) \<union> set (text_emails text) \<union> set (meta_emails soup)"

subsection \<open>\<open>extract_phone_numbers\<close>\<close>

text \<open>The characters that \<open>re.sub(r'[^0-9+()\s.-]', '', phone)\<close> keeps.\<close>
definition tel_char :: "char \<Rightarrow> bool" where
  "tel_char c = (is_digit c \<or> c = CHR ''+'' \<or> c = CHR ''('' \<or> c = CHR '')''
                 \<or> is_space c \<or> c = CHR ''.'' \<or> c = CHR ''-'')"

definition tel_number :: "string \<Rightarrow> string" where
  "tel_number h = filter tel_char (strip (remove_all ''tel:'' h))"

text \<open>The first loop: the \<open>tel:\<close> links.\<close>
definition tel_phones :: "document \<Rightarrow> string list" where
  "tel_phones soup =
     filter (\<lambda>phone. phone \<noteq> [])
       (map (\<lambda>l. tel_number (href l))
          (filter (\<lambda>l. startswith (href l) ''tel:'') (links soup)))"

text \<open>\<open>phone_pattern\<close> has four groups, so \<open>findall\<close> gives tuples and \<open>phone\<close> is
  \<open>''.join(match)\<close>, stripped.\<close>
definition candidates :: "string \<Rightarrow> string list" where
  "candidates s = map (\<lambda>m. strip (concat m)) (findall_groups phone_pattern 4 s)"

definition valid_digits :: "string \<Rightarrow> bool" where
  "valid_digits phone = (10 \<le> digit_count phone \<and> digit_count phone \<le> 15)"

text \<open>The second loop: the elements that mention a phone.\<close>
definition contact_phones :: "document \<Rightarrow> string list" where
  "contact_phones soup =
     concat (map (\<lambda>elem_text. filter valid_digits (candidates elem_text))
               (contact_elements soup))"

definition placeholders :: "string list" where
  "placeholders = [''1234567890'', ''0000000000'']"

text \<open>The third loop: the whole page text.\<close>
definition fallback_phones :: "string \<Rightarrow> string list" where
  "fallback_phones text =
     filter (\<lambda>phone. valid_digits phone \<and> \<not> any_in placeholders phone) (candidates text)"

definition extract_phone_numbers :: "document \<Rightarrow> string \<Rightarrow> string set" where
  "extract_phone_numbers soup text =
     (let phones = set (tel_phones soup) \<union> set (contact_phones soup)
      in if card phones < 2 then phones \<union> set (fallback_phones text) else phones)"

subsection \<open>\<open>extract_physical_address\<close>\<close>

definition address_keywords :: "string list" where
  "address_keywords = [''address'', ''location'', ''visit us'', ''our office'', ''headquarters'']"

text \<open>The second loop, over the \<open>address\<close>, \<open>div\<close> and \<open>p\<close> elements.\<close>
fun keyword_address :: "string list \<Rightarrow> string" where
  "keyword_address [] = []"
| "keyword_address (full_text # rest) =
     (if any_in address_keywords (lower full_text)
         \<and> 20 < length full_text \<and> length full_text < 500
      then take 200 full_text
      else keyword_address rest)"

text \<open>The first loop, over the \<open>PostalAddress\<close> elements, returns at the first one that
  has parts.\<close>
fun postal_address :: "string list list \<Rightarrow> string option" where
  "postal_address [] = None"
| "postal_address (address_parts # rest) =
     (if address_parts \<noteq> [] then Some (join '', '' address_parts) else postal_address rest)"

definition extract_physical_address :: "document \<Rightarrow> string \<Rightarrow> string" where
  "extract_physical_address soup text =
     (case postal_address (postal_addresses soup) of
        Some a \<Rightarrow> a
      | None \<Rightarrow> keyword_address (blocks soup))"


subsection \<open>\<open>extract_social_links\<close> and \<open>find_contact_page\<close>\<close>

text \<open>
  \<open>urljoin\<close> of \<open>urllib.parse\<close> is a parameter \<open>uj\<close> of the model. It raises \<open>ValueError\<close>
  on some malformed addresses, so it returns a sum.
\<close>

datatype exn = TimeoutException | WebDriverException | ValueError

type_synonym urljoin = "string \<Rightarrow> string \<Rightarrow> exn + string"

datatype platform = Facebook | Instagram | Twitter_x | Tiktok | Youtube | Linkedin

definition social_media_domains :: "(platform \<times> string list) list" where
  "social_media_domains =
     [(Facebook, [''facebook.com'', ''fb.com'']),
      (Instagram, [''instagram.com'']),
      (Twitter_x, [''twitter.com'', ''x.com'']),
      (Tiktok, [''tiktok.com'']),
      (Youtube, [''youtube.com'', ''youtu.be'']),
      (Linkedin, [''linkedin.com''])]"

text \<open>\<open>for domain in domains\<close>: at the first domain found in the lowered \<open>href\<close> the link
  is resolved and the loop left.\<close>
fun domain_loop :: "urljoin \<Rightarrow> string \<Rightarrow> string \<Rightarrow> string list \<Rightarrow> exn + string option" where
  "domain_loop uj base_url h [] = Inr None"
| "domain_loop uj base_url h (d # ds) =
     (if str_in d (lower h)
      then (case uj base_url h of Inl e \<Rightarrow> Inl e | Inr full_url \<Rightarrow> Inr (Some full_url))
      else domain_loop uj base_url h ds)"

text \<open>\<open>for platform, domains in self.social_media_domains.items()\<close>\<close>
fun platform_loop ::
  "urljoin \<Rightarrow> string \<Rightarrow> string \<Rightarrow> (platform \<times> string list) list \<Rightarrow> (platform \<Rightarrow> string)
   \<Rightarrow> exn + (platform \<Rightarrow> string)" where
  "platform_loop uj base_url h [] social_links = Inr social_links"
| "platform_loop uj base_url h ((p, ds) # rest) social_links =
     (if social_links p = []
      then (case domain_loop uj base_url h ds of
              Inl e \<Rightarrow> Inl e
            | Inr None \<Rightarrow> platform_loop uj base_url h rest social_links
            | Inr (Some full_url) \<Rightarrow>
                platform_loop uj base_url h rest (social_links(p := full_url)))
      else platform_loop uj base_url h rest social_links)"

text \<open>\<open>for link in soup.find_all('a', href=True)\<close>\<close>
fun link_loop ::
  "urljoin \<Rightarrow> string \<Rightarrow> link list \<Rightarrow> (platform \<Rightarrow> string) \<Rightarrow> exn + (platform \<Rightarrow> string)" where
  "link_loop uj base_url [] social_links = Inr social_links"
| "link_loop uj base_url (l # ls) social_links =
     (case platform_loop uj base_url (href l) social_media_domains social_links of
        Inl e \<Rightarrow> Inl e
      | Inr social_links' \<Rightarrow> link_loop uj base_url ls social_links')"

definition extract_social_links ::
  "urljoin \<Rightarrow> document \<Rightarrow> string \<Rightarrow> exn + (platform \<Rightarrow> string)" where
  "extract_social_links uj soup base_url = link_loop uj base_url (links soup) (\<lambda>p. [])"

definition contact_words :: "string list" where
  "contact_words = [''contact'', ''get-in-touch'', ''reach-us'']"

fun contact_loop :: "urljoin \<Rightarrow> string \<Rightarrow> link list \<Rightarrow> exn + string" where
  "contact_loop uj base_url [] = Inr []"
| "contact_loop uj base_url (l # ls) =
     (if list_ex (\<lambda>word. str_in word (lower (href l)) \<or> str_in word (lower (link_text l)))
           contact_words
      then uj base_url (href l)
      else contact_loop uj base_url ls)"

definition find_contact_page :: "urljoin \<Rightarrow> document \<Rightarrow> string \<Rightarrow> exn + string" where
  "find_contact_page uj soup base_url = contact_loop uj base_url (links soup)"

section \<open>The browser\<close>

text \<open>
  What the browser shows is outside the program, so it is an input of the model.
  \<^item> A page load (\<open>driver.get\<close> up to the parsing of \<open>page_source\<close>) either raises or gives
    a rendered page: whether the wait for \<open>body\<close> succeeded, the parsed document, its text
    \<open>soup.get_text(separator=' ', strip=True)\<close> and \<open>driver.current_url\<close>. The answer may
    depend on the addresses requested before, the list \<open>visited\<close>.
  \<^item> A search session: what happens from \<open>driver.get('https://www.google.com')\<close> to
    \<open>search_box.submit()\<close>, and the listing pages the browser shows, the first one after
    the submit and each further one after a click on Next. A listing is what the loop body
    reads: the exception of the wait for \<open>search\<close> or of the parsing, if any; for each
    element of \<open>soup.select('div.g, div[data-hveid]')\<close> the \<open>href\<close> of
    \<open>result.find('a', href=True)\<close>, if there is one; the \<open>href\<close>s of the links inside
    \<open>div#search\<close>, if there is one; and for each of the three ways to find the Next button,
    whether it finds and clicks it.
\<close>

record rendered =
  body_ready :: bool
  page_soup :: document
  page_text :: string
  current_url :: string

datatype load = Failed exn | Loaded rendered

record listing =
  wait_search :: "exn option"
  result_divs :: "string option list"
  search_div :: "string list option"
  next_by_id :: bool
  next_by_aria :: bool
  next_by_span :: bool

record results_session =
  open_error :: "exn option"
  listings :: "listing list"

record driver =
  respond :: "string list \<Rightarrow> string \<Rightarrow> load"
  serp :: "string \<Rightarrow> results_session"

section \<open>\<open>search_google\<close>\<close>

definition max_pages :: "int \<Rightarrow> int" where
  "max_pages max_results = (max_results + 9) div 10"

text \<open>Method 1: the first link of each result element.\<close>
definition method1_links :: "listing \<Rightarrow> string list" where
  "method1_links lp =
     concat (map (\<lambda>r. case r of
                      None \<Rightarrow> []
                    | Some u \<Rightarrow>
                        if startswith u ''http''
                           \<and> \<not> any_in [''google.com'', ''youtube.com/results''] u
                        then [u] else [])
               (result_divs lp))"

text \<open>Method 2: every link inside \<open>div#search\<close>.\<close>
definition method2_links :: "listing \<Rightarrow> string list" where
  "method2_links lp =
     (case search_div lp of
        None \<Rightarrow> []
      | Some hs \<Rightarrow> filter (\<lambda>h. startswith h ''http'' \<and> \<not> str_in ''google.com'' h) hs)"

definition result_links :: "listing \<Rightarrow> string list" where
  "result_links lp = (if method1_links lp = [] then method2_links lp else method1_links lp)"

text \<open>\<open>for url in result_links\<close>: append the addresses not seen yet while there is
  room.\<close>
fun add_unique :: "int \<Rightarrow> string list \<Rightarrow> string list \<times> string set \<Rightarrow> string list \<times> string set" where
  "add_unique max_results [] (urls, seen) = (urls, seen)"
| "add_unique max_results (u # us) (urls, seen) =
     (if u \<notin> seen \<and> int (length urls) < max_results
      then add_unique max_results us (urls @ [u], insert u seen)
      else add_unique max_results us (urls, seen))"

definition next_button_found :: "listing \<Rightarrow> bool" where
  "next_button_found lp =
     (if next_by_id lp then True else if next_by_aria lp then True else next_by_span lp)"

text \<open>The listing that the browser shows as page \<open>page\<close>; when there is none, the wait for
  \<open>search\<close> times out.\<close>
definition listing_at :: "listing list \<Rightarrow> int \<Rightarrow> listing option" where
  "listing_at ls page =
     (if 1 \<le> page \<and> page \<le> int (length ls) then Some (ls ! nat (page - 1)) else None)"

text \<open>The \<open>while\<close> loop; its state is \<open>urls\<close>, \<open>seen\<close> and \<open>page\<close>, and it returns \<open>urls\<close>
  and \<open>page\<close> as they are when it is left.\<close>
function search_loop ::
  "listing list \<Rightarrow> int \<Rightarrow> string list \<Rightarrow> string set \<Rightarrow> int \<Rightarrow> string list \<times> int" where
  "search_loop ls max_results urls seen page =
     (if int (length urls) < max_results \<and> page \<le> max_pages max_results then
        (case listing_at ls page of
           None \<Rightarrow> (urls, page)
         | Some lp \<Rightarrow>
             (case wait_search lp of
                Some e \<Rightarrow> (urls, page)
              | None \<Rightarrow>
                  (case add_unique max_results (result_links lp) (urls, seen) of
                     (urls', seen') \<Rightarrow>
                       if max_results \<le> int (length urls') then (urls', page)
                       else if page < max_pages max_results then
                         (if next_button_found lp
                          then search_loop ls max_results urls' seen' (page + 1)
                          else (urls', page))
                       else (urls', page))))
      else (urls, page))"
  by pat_completeness auto
termination
  by (relation "measure (\<lambda>(ls, max_results, urls, seen, page).
                   nat (max_pages max_results + 1 - page))") auto

text \<open>The whole session: the addresses returned and the page counter at the return.\<close>
definition search_session :: "driver option \<Rightarrow> string \<Rightarrow> int \<Rightarrow> string list \<times> int" where
  "search_session drv query max_results =
     (case drv of
        None \<Rightarrow> ([], 1)
      | Some d \<Rightarrow>
          (case open_error (serp d query) of
             Some e \<Rightarrow> ([], 1)
           | None \<Rightarrow> search_loop (listings (serp d query)) max_results [] {} 1))"

definition search_google :: "driver option \<Rightarrow> string \<Rightarrow> int \<Rightarrow> string list" where
  "search_google drv query max_results = fst (search_session drv query max_results)"

definition last_page :: "driver option \<Rightarrow> string \<Rightarrow> int \<Rightarrow> int" where
  "last_page drv query max_results = snd (search_session drv query max_results)"

section \<open>\<open>scrape_site\<close> and \<open>scrape_multiple_sites\<close>\<close>

record contact_record =
  url :: string
  emails :: string
  phone_numbers :: string
  facebook :: string
  instagram :: string
  twitter_x :: string
  tiktok :: string
  youtube :: string
  linkedin :: string
  physical_address :: string
  contact_page_url :: string

definition empty_record :: "string \<Rightarrow> contact_record" where
  "empty_record u =
     \<lparr>url = u, emails = [], phone_numbers = [], facebook = [], instagram = [],
      twitter_x = [], tiktok = [], youtube = [], linkedin = [],
      physical_address = [], contact_page_url = []\<rparr>"

text \<open>The four local variables that the visit of the contact page updates.\<close>
record found =
  found_emails :: "string set"
  found_phones :: "string set"
  found_social :: "platform \<Rightarrow> string"
  found_address :: string

text \<open>
  The inner \<open>try\<close> block. An exception leaves it with the updates made so far:
  a failed load or a timed out wait for \<open>body\<close> with none, a failed
  \<open>extract_social_links\<close> with the emails and the phones of the contact page.
\<close>
definition visit_contact_page :: "urljoin \<Rightarrow> load \<Rightarrow> string \<Rightarrow> found \<Rightarrow> found" where
  "visit_contact_page uj ld contact_page f =
     (case ld of
        Failed e \<Rightarrow> f
      | Loaded pg \<Rightarrow>
          if \<not> body_ready pg then f
          else
            (let f1 = f\<lparr>found_emails :=
                        found_emails f \<union> extract_emails (page_soup pg) (page_text pg)\<rparr>;
                 f2 = f1\<lparr>found_phones :=
                        found_phones f1 \<union> extract_phone_numbers (page_soup pg) (page_text pg)\<rparr>
             in case extract_social_links uj (page_soup pg) contact_page of
                  Inl e \<Rightarrow> f2
                | Inr contact_social \<Rightarrow>
                    (let f3 = f2\<lparr>found_social := (\<lambda>key.
                                 if contact_social key \<noteq> [] \<and> found_social f2 key = []
                                 then contact_social key else found_social f2 key)\<rparr>
                     in if found_address f3 = []
                        then f3\<lparr>found_address :=
                                 extract_physical_address (page_soup pg) (page_text pg)\<rparr>
                        else f3)))"

text \<open>\<open>', '.join(sorted(xs))\<close>\<close>
definition join_sorted :: "string set \<Rightarrow> string" where
  "join_sorted xs = join '', '' (sorted_list_of_set xs)"

text \<open>The block under \<open># Update result\<close>.\<close>
definition update_result :: "string \<Rightarrow> string \<Rightarrow> found \<Rightarrow> contact_record" where
  "update_result cur contact_page f =
     \<lparr>url = cur,
      emails = join_sorted (found_emails f),
      phone_numbers = join_sorted (found_phones f),
      facebook = found_social f Facebook,
      instagram = found_social f Instagram,
      twitter_x = found_social f Twitter_x,
      tiktok = found_social f Tiktok,
      youtube = found_social f Youtube,
      linkedin = found_social f Linkedin,
      physical_address = found_address f,
      contact_page_url = contact_page\<rparr>"

text \<open>The condition of the visit of the contact page.\<close>
definition wants_contact_page :: "string \<Rightarrow> string \<Rightarrow> found \<Rightarrow> bool" where
  "wants_contact_page contact_page cur f =
     (contact_page \<noteq> [] \<and> contact_page \<noteq> cur
      \<and> (found_emails f = {} \<or> found_phones f = {}))"

text \<open>
  The extraction from the main page, up to \<open>find_contact_page\<close>: the four local
  variables and \<open>contact_page\<close>, or the exception that leaves the outer \<open>try\<close> block.
\<close>
definition extract_main :: "urljoin \<Rightarrow> rendered \<Rightarrow> exn + found \<times> string" where
  "extract_main uj pg =
     (case extract_social_links uj (page_soup pg) (current_url pg) of
        Inl e \<Rightarrow> Inl e
      | Inr social \<Rightarrow>
          (case find_contact_page uj (page_soup pg) (current_url pg) of
             Inl e \<Rightarrow> Inl e
           | Inr contact_page \<Rightarrow>
               Inr (\<lparr>found_emails = extract_emails (page_soup pg) (page_text pg),
                     found_phones = extract_phone_numbers (page_soup pg) (page_text pg),
                     found_social = social,
                     found_address = extract_physical_address (page_soup pg) (page_text pg)\<rparr>,
                    contact_page)))"

text \<open>\<open>scrape_site\<close> returns the record and the list of the addresses requested so far.\<close>
definition scrape_site ::
  "urljoin \<Rightarrow> driver option \<Rightarrow> string list \<Rightarrow> string \<Rightarrow> contact_record \<times> string list" where
  "scrape_site uj drv visited u =
     (case drv of
        None \<Rightarrow> (empty_record u, visited)
      | Some d \<Rightarrow>
          (case respond d visited u of
             Failed e \<Rightarrow> (empty_record u, visited @ [u])
           | Loaded pg \<Rightarrow>
               (case extract_main uj pg of
                  Inl e \<Rightarrow> (empty_record u, visited @ [u])
                | Inr (f, contact_page) \<Rightarrow>
                    if wants_contact_page contact_page (current_url pg) f
                    then (update_result (current_url pg) contact_page
                            (visit_contact_page uj (respond d (visited @ [u]) contact_page)
                               contact_page f),
                          visited @ [u, contact_page])
                    else (update_result (current_url pg) contact_page f, visited @ [u]))))"


section \<open>Properties stated about the program, and sample inputs\<close>


text \<open>What \<open>search_google\<close> requires of an address before it keeps it.\<close>
definition ok_url :: "string \<Rightarrow> bool" where
  "ok_url u = (startswith u ''http'' \<and> \<not> str_in ''google.com'' u)"

definition no_page :: document where
  "no_page =
     \<lparr>links = [], metas = [], contact_elements = [], postal_addresses = [], blocks = []\<rparr>"






text \<open>The result links of the first \<open>n\<close> listing pages of a session, in the order of the
  pages and of the links on each page.\<close>
definition discovered :: "driver option \<Rightarrow> string \<Rightarrow> nat \<Rightarrow> string list" where
  "discovered drv query n =
     (case drv of
        None \<Rightarrow> []
      | Some d \<Rightarrow> concat (map result_links (take n (listings (serp d query)))))"

text \<open>A listing page with one result element for each of the given addresses, and a
  Next button with the id \<open>pnnext\<close>.\<close>
definition listing_of :: "string list \<Rightarrow> listing" where
  "listing_of us =
     \<lparr>wait_search = None, result_divs = map Some us, search_div = None,
      next_by_id = True, next_by_aria = False, next_by_span = False\<rparr>"

definition shops1 :: "string list" where
  "shops1 = [''http://a0.co'', ''http://a1.co'', ''http://a2.co'', ''http://a3.co'',
             ''http://a4.co'', ''http://a5.co'', ''http://a6.co'', ''http://a7.co'',
             ''http://a8.co'', ''http://a9.co'']"

definition shops2 :: "string list" where
  "shops2 = [''http://b0.co'', ''http://b1.co'', ''http://b2.co'', ''http://b3.co'',
             ''http://b4.co'']"

text \<open>A browser that shows three listing pages for every query: ten shops and a link
  whose address contains \<open>google.com\<close>, five more shops, and the first ten shops again.
  It fails to load every other page.\<close>
definition search_driver :: driver where
  "search_driver =
     \<lparr>respond = (\<lambda>visited u. Failed WebDriverException),
      serp = (\<lambda>query.
        \<lparr>open_error = None,
         listings = [listing_of (shops1 @ [''http://notgoogle.com/shop'']),
                     listing_of shops2, listing_of shops1]\<rparr>)\<rparr>"



text \<open>A stand-in for \<open>urljoin\<close> in the sample runs: an address that starts with \<open>//[\<close>,
  a host with an open bracket, raises \<open>ValueError\<close>; one that starts with \<open>http\<close> is
  returned as it is; any other one is appended to the base.\<close>
definition sample_urljoin :: urljoin where
  "sample_urljoin base_url h =
     (if startswith h ''//['' then Inl ValueError
      else if startswith h ''http'' then Inr h
      else Inr (base_url @ h))"


definition facebook_link :: link where
  "facebook_link = \<lparr>href = ''https://www.Facebook.com/shop'', link_text = ''Facebook''\<rparr>"

definition instagram_link :: link where
  "instagram_link = \<lparr>href = ''https://instagram.com/shop'', link_text = ''Instagram''\<rparr>"



text \<open>The addresses that one call of \<open>scrape_site\<close> asks the browser for, in order.\<close>
definition visits :: "urljoin \<Rightarrow> driver option \<Rightarrow> string list \<Rightarrow> string \<Rightarrow> string list" where
  "visits uj drv visited u = drop (length visited) (snd (scrape_site uj drv visited u))"

text \<open>The visit of an address fails when there is no browser, when the page does not
  load, or when the extraction from it raises: the cases in which \<open>scrape_site\<close> leaves
  the outer \<open>try\<close> block before \<open># Update result\<close>, or never enters it.\<close>
definition visit_fails :: "urljoin \<Rightarrow> driver option \<Rightarrow> string list \<Rightarrow> string \<Rightarrow> bool" where
  "visit_fails uj drv visited u =
     (case drv of
        None \<Rightarrow> True
      | Some d \<Rightarrow>
          (case respond d visited u of
             Failed e \<Rightarrow> True
           | Loaded pg \<Rightarrow> isl (extract_main uj pg)))"

text \<open>The social link of a record for a platform.\<close>
definition social_of :: "contact_record \<Rightarrow> platform \<Rightarrow> string" where
  "social_of r p =
     (case p of
        Facebook \<Rightarrow> facebook r
      | Instagram \<Rightarrow> instagram r
      | Twitter_x \<Rightarrow> twitter_x r
      | Tiktok \<Rightarrow> tiktok r
      | Youtube \<Rightarrow> youtube r
      | Linkedin \<Rightarrow> linkedin r)"

text \<open>The main page of a shop: a \<open>mailto:\<close> link, a Facebook link, a link to the contact
  page and a \<open>PostalAddress\<close> element; no phone number.\<close>
definition shop_main :: document where
  "shop_main =
     no_page\<lparr>links := [\<lparr>href = ''mailto:Sales@Shop.org'', link_text = ''Mail us''\<rparr>,
                        facebook_link,
                        \<lparr>href = ''/contact'', link_text = ''Contact Us''\<rparr>],
             postal_addresses := [[''1 Main St'', ''Springfield'']]\<rparr>"

text \<open>Its contact page: a \<open>tel:\<close> link, a Facebook link whose address \<open>urljoin\<close> rejects,
  and a paragraph with an address.\<close>
definition shop_contact :: document where
  "shop_contact =
     no_page\<lparr>links := [\<lparr>href = ''tel:+1 212 555 1234'', link_text = ''Call''\<rparr>,
                        \<lparr>href = ''//[facebook.com'', link_text = ''Facebook''\<rparr>],
             blocks := [''Our address: 5 Side St, Shelbyville'']\<rparr>"

text \<open>The main page of a second shop: only a link to the contact page.\<close>
definition plain_main :: document where
  "plain_main = no_page\<lparr>links := [\<lparr>href = ''/contact'', link_text = ''Contact Us''\<rparr>]\<rparr>"

text \<open>Its contact page: an Instagram link and a paragraph with an address.\<close>
definition plain_contact :: document where
  "plain_contact =
     no_page\<lparr>links := [instagram_link],
             blocks := [''Our address: 5 Side St, Shelbyville'']\<rparr>"

definition rendered_of :: "document \<Rightarrow> string \<Rightarrow> string \<Rightarrow> rendered" where
  "rendered_of soup text u =
     \<lparr>body_ready = True, page_soup = soup, page_text = text, current_url = u\<rparr>"

text \<open>A browser that shows these four pages, without redirects, and fails to load any
  other address.\<close>
definition shop_driver :: driver where
  "shop_driver =
     \<lparr>respond = (\<lambda>visited u.
        if u = ''https://shop.example''
        then Loaded (rendered_of shop_main
                       ''Mail us Facebook Contact Us 1 Main St Springfield'' u)
        else if u = ''https://shop.example/contact''
        then Loaded (rendered_of shop_contact
                       ''Call Facebook Our address: 5 Side St, Shelbyville'' u)
        else if u = ''https://plain.example''
        then Loaded (rendered_of plain_main ''Contact Us'' u)
        else if u = ''https://plain.example/contact''
        then Loaded (rendered_of plain_contact
                       ''Instagram Our address: 5 Side St, Shelbyville'' u)
        else Failed WebDriverException),
      serp = (\<lambda>query. \<lparr>open_error = Some WebDriverException, listings = []\<rparr>)\<rparr>"

section \<open>The phone extractor\<close>




section \<open>The email extractor\<close>




section \<open>The address extractor\<close>




lemma postal_address_None:
  "postal_address ps = None \<longleftrightarrow> (\<forall>parts \<in> set ps. parts = [])"
  by (induction ps) (auto split: if_splits)




section \<open>The search\<close>

declare search_loop.simps [simp del]

lemma result_links_ok: "u \<in> set (result_links lp) \<Longrightarrow> ok_url u"
  by (auto simp: result_links_def method1_links_def method2_links_def ok_url_def any_in_def
      split: if_splits option.splits)

lemma add_unique_inv:
  "add_unique N us (urls, seen) = (urls', seen') \<Longrightarrow> seen = set urls \<Longrightarrow> distinct urls \<Longrightarrow>
     seen' = set urls' \<and> distinct urls' \<and> (\<exists>new. urls' = urls @ new \<and> subseq new us)
     \<and> (int (length urls) \<le> N \<longrightarrow> int (length urls') \<le> N)"
proof (induction us arbitrary: urls seen)
  case Nil
  then show ?case by auto
next
  case (Cons u us)
  show ?case
  proof (cases "u \<notin> seen \<and> int (length urls) < N")
    case True
    with Cons.prems have step: "add_unique N us (urls @ [u], insert u seen) = (urls', seen')"
      by simp
    have "insert u seen = set (urls @ [u])" "distinct (urls @ [u])"
      using Cons.prems True by auto
    from Cons.IH [OF step this]
    obtain new where n: "seen' = set urls'" "distinct urls'" "urls' = (urls @ [u]) @ new"
      "subseq new us" "int (length (urls @ [u])) \<le> N \<longrightarrow> int (length urls') \<le> N"
      by blast
    have "urls' = urls @ (u # new)" "subseq (u # new) (u # us)"
      using n by auto
    moreover have "int (length urls') \<le> N"
      using n(5) True by simp
    ultimately show ?thesis
      using n(1,2) by blast
  next
    case False
    with Cons.prems have step: "add_unique N us (urls, seen) = (urls', seen')"
      by auto
    from Cons.IH [OF step Cons.prems(2,3)]
    show ?thesis
      by (auto intro: subseq_Cons')
  qed
qed

lemma add_unique_ok:
  "add_unique N us (urls, seen) = (urls', seen') \<Longrightarrow> \<forall>u \<in> set us. P u \<Longrightarrow> \<forall>u \<in> set urls. P u
     \<Longrightarrow> \<forall>u \<in> set urls'. P u"
proof (induction us arbitrary: urls seen)
  case Nil
  then show ?case by auto
next
  case (Cons u us)
  show ?case
  proof (cases "u \<notin> seen \<and> int (length urls) < N")
    case True
    with Cons.prems(1) have step: "add_unique N us (urls @ [u], insert u seen) = (urls', seen')"
      by simp
    have "\<forall>v \<in> set us. P v" "\<forall>v \<in> set (urls @ [u]). P v"
      using Cons.prems(2,3) by auto
    from Cons.IH [OF step this] show ?thesis .
  next
    case False
    with Cons.prems(1) have step: "add_unique N us (urls, seen) = (urls', seen')"
      by auto
    have "\<forall>v \<in> set us. P v"
      using Cons.prems(2) by auto
    from Cons.IH [OF step this Cons.prems(3)] show ?thesis .
  qed
qed

lemma add_unique_fresh:
  "distinct (urls @ us) \<Longrightarrow> int (length urls + length us) \<le> N \<Longrightarrow>
     add_unique N us (urls, set urls) = (urls @ us, set (urls @ us))"
proof (induction us arbitrary: urls)
  case Nil
  then show ?case by simp
next
  case (Cons u us)
  have "distinct ((urls @ [u]) @ us)" "int (length (urls @ [u]) + length us) \<le> N"
    using Cons.prems by auto
  from Cons.IH [OF this] Cons.prems show ?case
    by simp
qed

lemma listing_at_Some:
  "listing_at ls page = Some lp \<Longrightarrow> 1 \<le> page \<and> nat (page - 1) < length ls \<and> lp = ls ! nat (page - 1)"
  by (auto simp: listing_at_def split: if_splits)

lemma drop_take_one:
  "1 \<le> page \<Longrightarrow> nat (page - 1) < length ls \<Longrightarrow>
     drop (nat (page - 1)) (take (nat page) ls) = [ls ! nat (page - 1)]"
proof -
  assume a: "1 \<le> page" "nat (page - 1) < length ls"
  then have "nat page = Suc (nat (page - 1))"
    by linarith
  then show ?thesis
    using a(2) by (simp add: take_Suc_conv_app_nth)
qed

lemma drop_take_step:
  "1 \<le> page \<Longrightarrow> page + 1 \<le> page' \<Longrightarrow> nat (page - 1) < length ls \<Longrightarrow>
     drop (nat (page - 1)) (take (nat page') ls)
       = ls ! nat (page - 1) # drop (nat page) (take (nat page') ls)"
proof -
  assume a: "1 \<le> page" "page + 1 \<le> page'" "nat (page - 1) < length ls"
  then have s: "nat page = Suc (nat (page - 1))" and l: "nat (page - 1) < nat page'"
    by linarith+
  have "nat (page - 1) < length (take (nat page') ls)"
    using a(3) l by simp
  from Cons_nth_drop_Suc [OF this] show ?thesis
    using l by (simp add: s)
qed

lemma search_loop_unfold:
  "search_loop ls N urls seen page = (urls', page') \<Longrightarrow>
   (if int (length urls) < N \<and> page \<le> max_pages N then
        (case listing_at ls page of
           None \<Rightarrow> (urls, page)
         | Some lp \<Rightarrow>
             (case wait_search lp of
                Some e \<Rightarrow> (urls, page)
              | None \<Rightarrow>
                  (case add_unique N (result_links lp) (urls, seen) of
                     (urls1, seen1) \<Rightarrow>
                       if N \<le> int (length urls1) then (urls1, page)
                       else if page < max_pages N then
                         (if next_button_found lp
                          then search_loop ls N urls1 seen1 (page + 1)
                          else (urls1, page))
                       else (urls1, page))))
      else (urls, page)) = (urls', page')"
  by (subst (asm) search_loop.simps) simp

lemma search_loop_cases:
  assumes "search_loop ls N urls seen page = (urls', page')"
  obtains
    (stop) "urls' = urls" "page' = page"
  | (last) lp urls1 seen1 where "int (length urls) < N" "page \<le> max_pages N"
      "listing_at ls page = Some lp" "wait_search lp = None"
      "add_unique N (result_links lp) (urls, seen) = (urls1, seen1)"
      "urls' = urls1" "page' = page"
  | (more) lp urls1 seen1 where "int (length urls) < N" "page \<le> max_pages N"
      "listing_at ls page = Some lp" "wait_search lp = None"
      "add_unique N (result_links lp) (urls, seen) = (urls1, seen1)"
      "\<not> N \<le> int (length urls1)" "page < max_pages N" "next_button_found lp"
      "search_loop ls N urls1 seen1 (page + 1) = (urls', page')"
proof -
  note u = search_loop_unfold [OF assms]
  show thesis
  proof (cases "int (length urls) < N \<and> page \<le> max_pages N")
    case False
    with u show thesis by (intro stop) auto
  next
    case go: True
    show thesis
    proof (cases "listing_at ls page")
      case None
      with u go show thesis by (intro stop) auto
    next
      case lp: (Some lp)
      show thesis
      proof (cases "wait_search lp")
        case (Some e)
        with u go lp show thesis by (intro stop) auto
      next
        case None
        obtain urls1 seen1 where au: "add_unique N (result_links lp) (urls, seen) = (urls1, seen1)"
          by (cases "add_unique N (result_links lp) (urls, seen)")
        show thesis
        proof (cases "\<not> N \<le> int (length urls1) \<and> page < max_pages N \<and> next_button_found lp")
          case False
          with u go lp None au have "urls' = urls1" "page' = page"
            by (auto split: if_splits)
          with go lp None au show thesis by (intro last) auto
        next
          case True
          with u go lp None au have "search_loop ls N urls1 seen1 (page + 1) = (urls', page')"
            by auto
          with go lp None au True show thesis by (intro more) auto
        qed
      qed
    qed
  qed
qed

lemma search_loop_inv:
  "search_loop ls N urls seen page = (urls', page') \<Longrightarrow> seen = set urls \<Longrightarrow> distinct urls \<Longrightarrow>
   int (length urls) \<le> N \<Longrightarrow> 1 \<le> page \<Longrightarrow>
   distinct urls' \<and> int (length urls') \<le> N \<and> page \<le> page'
   \<and> (page \<le> max_pages N \<longrightarrow> page' \<le> max_pages N)
   \<and> (\<exists>new. urls' = urls @ new
         \<and> subseq new (concat (map result_links (drop (nat (page - 1)) (take (nat page') ls)))))"
proof (induction ls N urls seen page arbitrary: urls' page' rule: search_loop.induct)
  case (1 ls N urls seen page)
  from "1.prems"(1) show ?case
  proof (cases rule: search_loop_cases)
    case stop
    then show ?thesis
      using "1.prems" by simp
  next
    case (last lp urls1 seen1)
    note lp = listing_at_Some [OF last(3)]
    from add_unique_inv [OF last(5) "1.prems"(2,3)] "1.prems"(4)
    obtain new1 where a1: "distinct urls1" "urls1 = urls @ new1"
      "subseq new1 (result_links lp)" "int (length urls1) \<le> N"
      by blast
    have "drop (nat (page - 1)) (take (nat page) ls) = [lp]"
      using drop_take_one [of page ls] lp by simp
    then show ?thesis
      using a1 last by simp
  next
    case (more lp urls1 seen1)
    note lp = listing_at_Some [OF more(3)]
    from add_unique_inv [OF more(5) "1.prems"(2,3)] "1.prems"(4)
    obtain new1 where a1: "seen1 = set urls1" "distinct urls1" "urls1 = urls @ new1"
      "subseq new1 (result_links lp)" "int (length urls1) \<le> N"
      by blast
    have p1: "1 \<le> page + 1"
      using "1.prems"(5) by simp
    have go: "int (length urls) < N \<and> page \<le> max_pages N"
      using more(1,2) by simp
    have "distinct urls' \<and> int (length urls') \<le> N \<and> page + 1 \<le> page'
       \<and> (page + 1 \<le> max_pages N \<longrightarrow> page' \<le> max_pages N)
       \<and> (\<exists>new. urls' = urls1 @ new
         \<and> subseq new (concat (map result_links (drop (nat (page + 1 - 1)) (take (nat page') ls)))))"
      by (rule "1.IH" [OF go more(3) more(4) more(5) [symmetric] more(6) more(7) more(8) more(9)
            a1(1) a1(2) a1(5) p1])
    then obtain new2 where a2: "distinct urls'" "int (length urls') \<le> N" "page + 1 \<le> page'"
      "page' \<le> max_pages N" "urls' = urls1 @ new2"
      "subseq new2 (concat (map result_links (drop (nat page) (take (nat page') ls))))"
      using more(7) by auto
    have "subseq (new1 @ new2)
            (result_links lp @ concat (map result_links (drop (nat page) (take (nat page') ls))))"
      using a1(4) a2(6) by (rule list_emb_append_mono)
    then have "subseq (new1 @ new2)
            (concat (map result_links (drop (nat (page - 1)) (take (nat page') ls))))"
      using drop_take_step [of page page' ls] lp a2(3) by simp
    then show ?thesis
      using a1 a2 by auto
  qed
qed

lemma search_loop_ok:
  "search_loop ls N urls seen page = (urls', page') \<Longrightarrow> \<forall>u \<in> set urls. ok_url u
     \<Longrightarrow> \<forall>u \<in> set urls'. ok_url u"
proof (induction ls N urls seen page arbitrary: urls' page' rule: search_loop.induct)
  case (1 ls N urls seen page)
  from "1.prems"(1) show ?case
  proof (cases rule: search_loop_cases)
    case stop
    then show ?thesis
      using "1.prems" by simp
  next
    case (last lp urls1 seen1)
    then show ?thesis
      using add_unique_ok [OF last(5), of ok_url] result_links_ok "1.prems"(2) by blast
  next
    case (more lp urls1 seen1)
    have ok1: "\<forall>u \<in> set urls1. ok_url u"
      using add_unique_ok [OF more(5), of ok_url] result_links_ok "1.prems"(2) by blast
    have go: "int (length urls) < N \<and> page \<le> max_pages N"
      using more(1,2) by simp
    show ?thesis
      by (rule "1.IH" [OF go more(3) more(4) more(5) [symmetric] more(6) more(7) more(8) more(9) ok1])
  qed
qed

lemma search_session_inv:
  assumes "1 \<le> N" and "search_session drv query N = (urls, page)"
  shows "distinct urls \<and> int (length urls) \<le> N \<and> 1 \<le> page \<and> page \<le> max_pages N
         \<and> subseq urls (discovered drv query (nat page))"
proof -
  have m: "1 \<le> max_pages N"
    using assms(1) by (simp add: max_pages_def)
  have none: ?thesis if "urls = []" "page = 1"
    using that assms(1) m by simp
  show ?thesis
  proof (cases drv)
    case None
    with assms(2) show ?thesis
      by (intro none) (simp_all add: search_session_def)
  next
    case (Some d)
    show ?thesis
    proof (cases "open_error (serp d query)")
      case (Some e)
      with assms(2) \<open>drv = Some d\<close> show ?thesis
        by (intro none) (simp_all add: search_session_def)
    next
      case None
      with assms(2) \<open>drv = Some d\<close>
      have r: "search_loop (listings (serp d query)) N [] {} 1 = (urls, page)"
        by (simp add: search_session_def)
      have "distinct urls \<and> int (length urls) \<le> N \<and> 1 \<le> page
            \<and> (1 \<le> max_pages N \<longrightarrow> page \<le> max_pages N)
            \<and> (\<exists>new. urls = [] @ new
                  \<and> subseq new (concat (map result_links
                        (drop (nat (1 - 1)) (take (nat page) (listings (serp d query)))))))"
        using assms(1) by (intro search_loop_inv [OF r]) simp_all
      then show ?thesis
        using m \<open>drv = Some d\<close> by (simp add: discovered_def)
    qed
  qed
qed

lemma search_loop_two_pages:
  assumes "wait_search p1 = None" and "wait_search p2 = None" and "next_button_found p1"
    and "length (result_links p1) = 10" and "length (result_links p2) = 5"
    and "distinct (result_links p1 @ result_links p2)"
  shows "search_loop (p1 # p2 # rest) 15 [] {} 1 = (result_links p1 @ result_links p2, 2)"
proof -
  have m: "max_pages 15 = 2"
    by (simp add: max_pages_def)
  have a1: "add_unique 15 (result_links p1) ([], {})
              = (result_links p1, set (result_links p1))"
    using add_unique_fresh [of "[]" "result_links p1" 15] assms(4,6) by simp
  have a2: "add_unique 15 (result_links p2) (result_links p1, set (result_links p1))
              = (result_links p1 @ result_links p2, set (result_links p1 @ result_links p2))"
    using add_unique_fresh [of "result_links p1" "result_links p2" 15] assms(4,5,6) by simp
  have l1: "listing_at (p1 # p2 # rest) 1 = Some p1"
    and l2: "listing_at (p1 # p2 # rest) 2 = Some p2"
    by (simp_all add: listing_at_def)
  have second: "search_loop (p1 # p2 # rest) 15 (result_links p1) (set (result_links p1)) 2
                  = (result_links p1 @ result_links p2, 2)"
    by (subst search_loop.simps) (simp add: m l2 a2 assms)
  show ?thesis
    by (subst search_loop.simps) (simp add: m l1 a1 assms second)
qed

text \<open>
  C10: every address in the list that \<open>search_google\<close> returns begins with \<open>http\<close> and
  does not contain \<open>google.com\<close>; so an address that contains \<open>google.com\<close> anywhere is
  never returned, whatever site it belongs to.
\<close>

theorem search_results_external:
  assumes "u \<in> set (search_google drv query max_results)"
  shows "startswith u ''http'' \<and> \<not> str_in ''google.com'' u"
proof -
  have "\<forall>u \<in> set (search_google drv query max_results). ok_url u"
  proof (cases drv)
    case None
    then show ?thesis
      by (simp add: search_google_def search_session_def)
  next
    case (Some d)
    show ?thesis
    proof (cases "open_error (serp d query)")
      case (Some e)
      with \<open>drv = Some d\<close> show ?thesis
        by (simp add: search_google_def search_session_def)
    next
      case None
      obtain urls page
        where r: "search_loop (listings (serp d query)) max_results [] {} 1 = (urls, page)"
        by (cases "search_loop (listings (serp d query)) max_results [] {} 1")
      have "\<forall>u \<in> set urls. ok_url u"
        by (rule search_loop_ok [OF r]) simp
      with r None \<open>drv = Some d\<close> show ?thesis
        by (simp add: search_google_def search_session_def)
    qed
  qed
  with assms show ?thesis
    by (auto simp: ok_url_def)
qed

theorem search_results_external_witness:
  "''http://a0.co'' \<in> set (search_google (Some search_driver) ''shops'' 15)
   \<and> startswith ''http://a0.co'' ''http'' \<and> \<not> str_in ''google.com'' ''http://a0.co''
   \<and> ''http://notgoogle.com/shop'' \<notin> set (search_google (Some search_driver) ''shops'' 15)"
proof -
  have h: "''http://a0.co'' \<in> set (search_google (Some search_driver) ''shops'' 15)"
    by code_simp
  have n: "''http://notgoogle.com/shop'' \<notin> set (search_google (Some search_driver) ''shops'' 15)"
    by code_simp
  from search_results_external [OF h] h n show ?thesis
    by simp
qed

text \<open>
  C3: for a target count \<open>N\<close> of at least 1, \<open>search_google\<close> returns a list without
  duplicates and of length at most \<open>N\<close>; the page counter stays between 1 and
  \<open>max_pages N\<close>, which is \<open>N / 10\<close> rounded up; and the list is in discovery order: it is a
  subsequence of the result links of the listing pages up to the last one visited, page after
  page. In particular, for \<open>N = 15\<close>, when the first page gives 10 links and the second one 5, all
  different, and the Next button of the first page is found, the list is these 15 links and
  the page counter ends at 2, whatever pages follow.
\<close>

theorem search_google_pagination:
  assumes "1 \<le> N"
  shows "distinct (search_google drv query N)
     \<and> int (length (search_google drv query N)) \<le> N
     \<and> 1 \<le> last_page drv query N \<and> last_page drv query N \<le> max_pages N
     \<and> max_pages N = \<lceil>real_of_int N / 10\<rceil>
     \<and> subseq (search_google drv query N) (discovered drv query (nat (last_page drv query N)))
     \<and> (N = 15 \<and> drv = Some d \<and> open_error (serp d query) = None
          \<and> listings (serp d query) = p1 # p2 # rest
          \<and> wait_search p1 = None \<and> wait_search p2 = None \<and> next_button_found p1
          \<and> length (result_links p1) = 10 \<and> length (result_links p2) = 5
          \<and> distinct (result_links p1 @ result_links p2)
        \<longrightarrow> search_google drv query N = result_links p1 @ result_links p2
            \<and> last_page drv query N = 2)"
proof -
  obtain urls page where s: "search_session drv query N = (urls, page)"
    by (cases "search_session drv query N")
  have g: "search_google drv query N = urls" and l: "last_page drv query N = page"
    using s by (simp_all add: search_google_def last_page_def)
  have "\<lceil>real_of_int N / 10\<rceil> = - (- N div 10)"
    using ceiling_divide_eq_div [of N 10] by simp
  also have "\<dots> = (N + 9) div 10"
    by arith
  finally have c: "max_pages N = \<lceil>real_of_int N / 10\<rceil>"
    by (simp add: max_pages_def)
  have two: "N = 15 \<and> drv = Some d \<and> open_error (serp d query) = None
          \<and> listings (serp d query) = p1 # p2 # rest
          \<and> wait_search p1 = None \<and> wait_search p2 = None \<and> next_button_found p1
          \<and> length (result_links p1) = 10 \<and> length (result_links p2) = 5
          \<and> distinct (result_links p1 @ result_links p2)
        \<longrightarrow> urls = result_links p1 @ result_links p2 \<and> page = 2"
  proof
    assume a: "N = 15 \<and> drv = Some d \<and> open_error (serp d query) = None
          \<and> listings (serp d query) = p1 # p2 # rest
          \<and> wait_search p1 = None \<and> wait_search p2 = None \<and> next_button_found p1
          \<and> length (result_links p1) = 10 \<and> length (result_links p2) = 5
          \<and> distinct (result_links p1 @ result_links p2)"
    then have "search_loop (p1 # p2 # rest) 15 [] {} 1
                 = (result_links p1 @ result_links p2, 2)"
      by (intro search_loop_two_pages) simp_all
    with a have "search_session drv query N = (result_links p1 @ result_links p2, 2)"
      by (simp add: search_session_def)
    with s show "urls = result_links p1 @ result_links p2 \<and> page = 2"
      by simp
  qed
  from search_session_inv [OF assms s]
  have i: "distinct urls" "int (length urls) \<le> N" "1 \<le> page" "page \<le> max_pages N"
    "subseq urls (discovered drv query (nat page))"
    by simp_all
  show ?thesis
    unfolding g l by (intro conjI) (fact i c two)+
qed

theorem search_google_pagination_witness:
  "search_google (Some search_driver) ''shops'' 15 = shops1 @ shops2
   \<and> last_page (Some search_driver) ''shops'' 15 = 2
   \<and> distinct (search_google (Some search_driver) ''shops'' 15)
   \<and> int (length (search_google (Some search_driver) ''shops'' 15)) \<le> 15
   \<and> max_pages 15 = \<lceil>real_of_int 15 / 10\<rceil>"
proof -
  have p: "listings (serp search_driver ''shops'')
             = listing_of (shops1 @ [''http://notgoogle.com/shop'']) # listing_of shops2
                 # [listing_of shops1]"
    by (simp add: search_driver_def)
  have o: "open_error (serp search_driver ''shops'') = None"
    by (simp add: search_driver_def)
  have r1: "result_links (listing_of (shops1 @ [''http://notgoogle.com/shop''])) = shops1"
    by code_simp
  have r2: "result_links (listing_of shops2) = shops2"
    by code_simp
  have w: "wait_search (listing_of (shops1 @ [''http://notgoogle.com/shop''])) = None"
    "wait_search (listing_of shops2) = None"
    "next_button_found (listing_of (shops1 @ [''http://notgoogle.com/shop'']))"
    by (simp_all add: listing_of_def next_button_found_def)
  have d: "distinct (shops1 @ shops2)" "length shops1 = 10" "length shops2 = 5"
    by (simp_all add: shops1_def shops2_def)
  have one: "(1::int) \<le> 15"
    by simp
  from search_google_pagination [OF one, of "Some search_driver" "''shops''" search_driver
      "listing_of (shops1 @ [''http://notgoogle.com/shop''])" "listing_of shops2"
      "[listing_of shops1]"]
    p o w d
  show ?thesis
    by (simp add: r1 r2)
qed

section \<open>The social links\<close>












section \<open>The visit of one site\<close>

lemma extract_main_Inr:
  "extract_main uj pg = Inr (f, c) \<longleftrightarrow>
     (\<exists>social. extract_social_links uj (page_soup pg) (current_url pg) = Inr social
        \<and> find_contact_page uj (page_soup pg) (current_url pg) = Inr c
        \<and> f = \<lparr>found_emails = extract_emails (page_soup pg) (page_text pg),
                found_phones = extract_phone_numbers (page_soup pg) (page_text pg),
                found_social = social,
                found_address = extract_physical_address (page_soup pg) (page_text pg)\<rparr>)"
  by (auto simp: extract_main_def split: sum.splits)

lemma scrape_site_loaded:
  assumes "respond d visited u = Loaded pg" and "extract_main uj pg = Inr (f, c)"
  shows "scrape_site uj (Some d) visited u =
           (if wants_contact_page c (current_url pg) f
            then (update_result (current_url pg) c
                    (visit_contact_page uj (respond d (visited @ [u]) c) c f),
                  visited @ [u, c])
            else (update_result (current_url pg) c f, visited @ [u]))"
  using assms by (simp add: scrape_site_def)

lemma scrape_site_fails:
  assumes "visit_fails uj drv visited u"
  shows "fst (scrape_site uj drv visited u) = empty_record u"
    and "snd (scrape_site uj drv visited u) = visited \<or> snd (scrape_site uj drv visited u) = visited @ [u]"
  using assms
  by (auto simp: visit_fails_def scrape_site_def split: option.splits load.splits sum.splits)

text \<open>
  C5: a call of \<open>scrape_site\<close> asks the browser for at most two addresses, the given one
  and then the contact page. The second request is made exactly when the main page loaded
  and its extraction did not raise, \<open>find_contact_page\<close> returned a non-empty address
  different from \<open>current_url\<close>, and the main page gave no email or no phone number.
\<close>

theorem contact_page_visit_iff:
  "(visits uj drv visited u = [u, c] \<longleftrightarrow>
      (\<exists>d pg. drv = Some d \<and> respond d visited u = Loaded pg
         \<and> \<not> isl (extract_social_links uj (page_soup pg) (current_url pg))
         \<and> find_contact_page uj (page_soup pg) (current_url pg) = Inr c
         \<and> c \<noteq> [] \<and> c \<noteq> current_url pg
         \<and> (extract_emails (page_soup pg) (page_text pg) = {}
             \<or> extract_phone_numbers (page_soup pg) (page_text pg) = {})))
   \<and> (visits uj drv visited u = [] \<or> visits uj drv visited u = [u]
       \<or> (\<exists>c'. visits uj drv visited u = [u, c']))"
proof (cases "visit_fails uj drv visited u")
  case True
  from scrape_site_fails(2) [OF True]
  have v: "visits uj drv visited u = [] \<or> visits uj drv visited u = [u]"
    by (auto simp: visits_def)
  have "\<not> (\<exists>d pg. drv = Some d \<and> respond d visited u = Loaded pg
         \<and> \<not> isl (extract_social_links uj (page_soup pg) (current_url pg))
         \<and> find_contact_page uj (page_soup pg) (current_url pg) = Inr c)"
    using True
    by (auto simp: visit_fails_def extract_main_def split: sum.splits)
  with v show ?thesis
    by auto
next
  case False
  then obtain d pg where d: "drv = Some d" and pg: "respond d visited u = Loaded pg"
    and ok: "\<not> isl (extract_main uj pg)"
    by (auto simp: visit_fails_def split: option.splits load.splits)
  from ok obtain f c0 where m: "extract_main uj pg = Inr (f, c0)"
    by (cases "extract_main uj pg") auto
  from m [unfolded extract_main_Inr] obtain social
    where s: "extract_social_links uj (page_soup pg) (current_url pg) = Inr social"
      and c0: "find_contact_page uj (page_soup pg) (current_url pg) = Inr c0"
      and f: "found_emails f = extract_emails (page_soup pg) (page_text pg)"
        "found_phones f = extract_phone_numbers (page_soup pg) (page_text pg)"
    by auto
  have v: "visits uj drv visited u
             = (if wants_contact_page c0 (current_url pg) f then [u, c0] else [u])"
    unfolding d visits_def scrape_site_loaded [OF pg m] by simp
  have "visits uj drv visited u = [u, c] \<longleftrightarrow>
          c = c0 \<and> c0 \<noteq> [] \<and> c0 \<noteq> current_url pg
          \<and> (extract_emails (page_soup pg) (page_text pg) = {}
              \<or> extract_phone_numbers (page_soup pg) (page_text pg) = {})"
    unfolding v by (auto simp: wants_contact_page_def f)
  moreover have "(\<exists>d pg. drv = Some d \<and> respond d visited u = Loaded pg
         \<and> \<not> isl (extract_social_links uj (page_soup pg) (current_url pg))
         \<and> find_contact_page uj (page_soup pg) (current_url pg) = Inr c
         \<and> c \<noteq> [] \<and> c \<noteq> current_url pg
         \<and> (extract_emails (page_soup pg) (page_text pg) = {}
             \<or> extract_phone_numbers (page_soup pg) (page_text pg) = {}))
      \<longleftrightarrow> c = c0 \<and> c0 \<noteq> [] \<and> c0 \<noteq> current_url pg
          \<and> (extract_emails (page_soup pg) (page_text pg) = {}
              \<or> extract_phone_numbers (page_soup pg) (page_text pg) = {})"
    using d pg s c0 by auto
  moreover have "visits uj drv visited u = [] \<or> visits uj drv visited u = [u]
       \<or> (\<exists>c'. visits uj drv visited u = [u, c'])"
    unfolding v by simp
  ultimately show ?thesis
    by simp
qed

theorem contact_page_visit_iff_witness:
  "visits sample_urljoin (Some shop_driver) [] ''https://shop.example''
     = [''https://shop.example'', ''https://shop.example/contact'']
   \<and> extract_phone_numbers shop_main ''Mail us Facebook Contact Us 1 Main St Springfield'' = {}
   \<and> visits sample_urljoin (Some shop_driver) [] ''https://shop.example/contact''
     = [''https://shop.example/contact'']"
proof -
  let ?text = "''Mail us Facebook Contact Us 1 Main St Springfield''"
  let ?pg = "rendered_of shop_main ?text ''https://shop.example''"
  have r: "respond shop_driver [] ''https://shop.example'' = Loaded ?pg"
    by (simp add: shop_driver_def)
  have s: "\<not> isl (extract_social_links sample_urljoin (page_soup ?pg) (current_url ?pg))"
    by code_simp
  have c: "find_contact_page sample_urljoin (page_soup ?pg) (current_url ?pg)
             = Inr ''https://shop.example/contact''"
    by code_simp
  have p: "extract_phone_numbers (page_soup ?pg) (page_text ?pg) = {}"
    by code_simp
  have p': "extract_phone_numbers shop_main ?text = {}"
    by code_simp
  have n: "current_url ?pg = ''https://shop.example''"
    by (simp add: rendered_of_def)
  have "\<exists>d pg. Some shop_driver = Some d \<and> respond d [] ''https://shop.example'' = Loaded pg
         \<and> \<not> isl (extract_social_links sample_urljoin (page_soup pg) (current_url pg))
         \<and> find_contact_page sample_urljoin (page_soup pg) (current_url pg)
             = Inr ''https://shop.example/contact''
         \<and> ''https://shop.example/contact'' \<noteq> []
         \<and> ''https://shop.example/contact'' \<noteq> current_url pg
         \<and> (extract_emails (page_soup pg) (page_text pg) = {}
             \<or> extract_phone_numbers (page_soup pg) (page_text pg) = {})"
    using r s c p n by (intro exI [of _ shop_driver] exI [of _ ?pg]) simp
  with contact_page_visit_iff
    [of sample_urljoin "Some shop_driver" "[]" "''https://shop.example''"
       "''https://shop.example/contact''"]
  have one: "visits sample_urljoin (Some shop_driver) [] ''https://shop.example''
     = [''https://shop.example'', ''https://shop.example/contact'']"
    by blast
  have two: "visits sample_urljoin (Some shop_driver) [] ''https://shop.example/contact''
     = [''https://shop.example/contact'']"
    by code_simp
  from one p' two show ?thesis
    by simp
qed

section \<open>The visit of several sites\<close>






end
